theory Spec2Isabelle
  imports Main
begin

section \<open>Review aggregation and companion records of \<^verbatim>\<open>candidates/models/db.py\<close>\<close>

subsection \<open>Data model\<close>

text \<open>
  Exceptions are values. A reason-function may raise anything, which is carried as
  \<open>Exception\<close> with its message; \<open>IntegrityError\<close> is what the record store raises
  when a uniqueness constraint is violated.
\<close>

datatype error = Exception string | IntegrityError

text \<open>
  A \<^verbatim>\<open>datetime\<close> is an integer count of microseconds; a \<^verbatim>\<open>timedelta\<close> is a
  signed count of microseconds. The finite range of Python's \<^verbatim>\<open>datetime\<close>
  (years 1 to 9999) is not part of the model: a clock reading is far from both ends.
\<close>

type_synonym datetime = int

definition timedelta :: "int \<Rightarrow> int" where
  "timedelta days = days * 86400000000"

text \<open>
  \<^verbatim>\<open>class LoggedAction(models.Model)\<close>: one row of the log. Foreign keys are the
  primary keys of the rows they refer to, nullable columns are options, \<open>note_text\<close> is
  the column \<^verbatim>\<open>note\<close>, and \<open>pk\<close> is
  the primary key the record store gives each row. Two \<^verbatim>\<open>LoggedAction\<close> objects are
  the same dictionary key exactly when their primary keys are equal.
\<close>

record logged_action =
  pk :: nat
  user :: "nat option"
  person :: "nat option"
  action_type :: string
  popit_person_new_version :: string
  created :: datetime
  updated :: datetime
  ip_address :: "string option"
  source :: string
  note_text :: "string option"
  post :: "nat option"

text \<open>
  \<^verbatim>\<open>class UserTermsAgreement(models.Model)\<close>: \<open>agreement_user\<close> is the
  \<^verbatim>\<open>OneToOneField\<close> to the user account (the field \<^verbatim>\<open>user\<close> of the source), so
  no two rows of the table have the same \<open>agreement_user\<close>.
\<close>

record user_terms_agreement =
  agreement_user :: nat
  assigned_to_dc :: bool

subsection \<open>Merging dictionaries of lists\<close>

text \<open>
  A Python \<^verbatim>\<open>dict\<close> is a map; \<^verbatim>\<open>d.get(k, default)\<close> is \<open>dict_get\<close>.
\<close>

definition dict_get :: "('k \<rightharpoonup> 'v) \<Rightarrow> 'k \<Rightarrow> 'v \<Rightarrow> 'v" where
  "dict_get d k dflt = (case d k of None \<Rightarrow> dflt | Some v \<Rightarrow> v)"

text \<open>
  \<^verbatim>\<open>
  def merge_dicts_with_list_values(dict_a, dict_b):
      return {
          k: dict_a.get(k, []) + dict_b.get(k, [])
          for k in set(dict_a.keys()) | set(dict_b.keys())
      }
  \<close>
\<close>

definition merge_dicts_with_list_values ::
  "('k \<rightharpoonup> 'v list) \<Rightarrow> ('k \<rightharpoonup> 'v list) \<Rightarrow> ('k \<rightharpoonup> 'v list)" where
  "merge_dicts_with_list_values dict_a dict_b =
     (\<lambda>k. if k \<in> dom dict_a \<union> dom dict_b
          then Some (dict_get dict_a k [] @ dict_get dict_b k [])
          else None)"

subsection \<open>The query set\<close>

text \<open>
  \<^verbatim>\<open>functools.reduce(function, iterable, initializer)\<close> folds from the left, starting
  from the initializer.
\<close>

fun reduce :: "('a \<Rightarrow> 'b \<Rightarrow> 'a) \<Rightarrow> 'b list \<Rightarrow> 'a \<Rightarrow> 'a" where
  "reduce f [] acc = acc"
| "reduce f (x # xs) acc = reduce f xs (f acc x)"

text \<open>
  \<^verbatim>\<open>
  def in_recent_days(self, days=5):
      return self.filter(
          created__gte=(datetime.now() - timedelta(days=days)))
  \<close>
  The query set is the list of its rows. The clock reading \<^verbatim>\<open>datetime.now()\<close> is the
  argument \<open>now\<close>; the optional argument \<open>days\<close> is \<open>None\<close> when the caller leaves
  it out.
\<close>

definition in_recent_days :: "logged_action list \<Rightarrow> int option \<Rightarrow> datetime \<Rightarrow> logged_action list" where
  "in_recent_days self days now =
     (let days = (case days of None \<Rightarrow> 5 | Some d \<Rightarrow> d)
      in filter (\<lambda>r. now - timedelta days \<le> created r) self)"

text \<open>
  A reason-function is a Python callable: called on the query set it may read and write
  the record store and any other mutable state (the type \<open>'s\<close>), and it either returns
  a dictionary from record identities to lists of reasons or raises. The list
  \<^verbatim>\<open>needs_review_fns\<close> is imported from a module that is not part of the sources at
  hand, so it is a parameter.
\<close>

type_synonym ('q, 'k, 's) reason_fn = "'q \<Rightarrow> 's \<Rightarrow> (error + ('k \<rightharpoonup> string list)) \<times> 's"

text \<open>
  The list comprehension \<^verbatim>\<open>[f(self) for f in needs_review_fns]\<close>: the functions are
  called in list order, each on the state the previous one left; the first exception
  ends the comprehension.
\<close>

fun call_fns :: "('q, 'k, 's) reason_fn list \<Rightarrow> 'q \<Rightarrow> 's \<Rightarrow> (error + ('k \<rightharpoonup> string list) list) \<times> 's" where
  "call_fns [] self s = (Inr [], s)"
| "call_fns (f # fs) self s =
     (case f self s of
        (Inl e, s') \<Rightarrow> (Inl e, s')
      | (Inr d, s') \<Rightarrow>
          (case call_fns fs self s' of
             (Inl e, s'') \<Rightarrow> (Inl e, s'')
           | (Inr ds, s'') \<Rightarrow> (Inr (d # ds), s'')))"

text \<open>
  \<^verbatim>\<open>
  def needs_review(self):
      return reduce(
          merge_dicts_with_list_values,
          [f(self) for f in needs_review_fns],
          {}
      )
  \<close>
\<close>

definition needs_review :: "('q, 'k, 's) reason_fn list \<Rightarrow> 'q \<Rightarrow> 's \<Rightarrow> (error + ('k \<rightharpoonup> string list)) \<times> 's" where
  "needs_review needs_review_fns self s =
     (case call_fns needs_review_fns self s of
        (Inl e, s') \<Rightarrow> (Inl e, s')
      | (Inr ds, s') \<Rightarrow> (Inr (reduce merge_dicts_with_list_values ds Map.empty), s'))"

subsection \<open>The post-save hook of user accounts\<close>

text \<open>
  \<^verbatim>\<open>UserTermsAgreement.objects.create(user=instance)\<close> inserts a row whose
  \<^verbatim>\<open>assigned_to_dc\<close> takes the field's default \<^verbatim>\<open>False\<close>. The one-to-one field is
  unique, so the insertion is refused when the account already has a row.
\<close>

definition objects_create :: "nat \<Rightarrow> user_terms_agreement list \<Rightarrow> error + user_terms_agreement list" where
  "objects_create instance tbl =
     (if instance \<in> agreement_user ` set tbl then Inl IntegrityError
      else Inr (tbl @ [\<lparr>agreement_user = instance, assigned_to_dc = False\<rparr>]))"

text \<open>
  \<^verbatim>\<open>
  def create_user_terms_agreement(sender, instance, created, **kwargs):
      if created:
          UserTermsAgreement.objects.create(user=instance)
  \<close>
  The state is the table of terms-agreement rows; \<open>was_created\<close> is the argument
  \<^verbatim>\<open>created\<close> of the signal, and the keyword arguments are not read.
\<close>

definition create_user_terms_agreement ::
  "'sender \<Rightarrow> nat \<Rightarrow> bool \<Rightarrow> user_terms_agreement list \<Rightarrow> error + user_terms_agreement list" where
  "create_user_terms_agreement sender instance was_created tbl =
     (if was_created then objects_create instance tbl else Inr tbl)"

subsection \<open>The aggregation as the specification words it\<close>

text \<open>
  The specification's algorithm, for comparison with \<open>needs_review\<close>: start with an
  empty mapping; for each reason-function in list order, invoke it against the full
  input collection, then merge its result into the accumulator.
\<close>

fun aggregate_spec ::
  "('k \<rightharpoonup> string list) \<Rightarrow> ('q, 'k, 's) reason_fn list \<Rightarrow> 'q \<Rightarrow> 's \<Rightarrow> (error + ('k \<rightharpoonup> string list)) \<times> 's" where
  "aggregate_spec acc [] self s = (Inr acc, s)"
| "aggregate_spec acc (f # fs) self s =
     (case f self s of
        (Inl e, s') \<Rightarrow> (Inl e, s')
      | (Inr d, s') \<Rightarrow> aggregate_spec (merge_dicts_with_list_values acc d) fs self s')"

subsection \<open>Example reason-functions and rows\<close>

definition reason_fn_A :: "('q, string, 's) reason_fn" where
  "reason_fn_A self s = (Inr [''rec1'' \<mapsto> [''missing source'']], s)"

definition reason_fn_B :: "('q, string, 's) reason_fn" where
  "reason_fn_B self s = (Inr [''rec1'' \<mapsto> [''no note''], ''rec2'' \<mapsto> [''flagged IP'']], s)"

definition reason_fn_broken :: "('q, string, 's) reason_fn" where
  "reason_fn_broken self s = (Inl (Exception ''lookup failed''), s)"

definition example_action :: "nat \<Rightarrow> datetime \<Rightarrow> logged_action" where
  "example_action i t =
     \<lparr>pk = i, user = Some 1, person = Some 2, action_type = ''person-update'',
      popit_person_new_version = ''0f3a'', created = t, updated = t,
      ip_address = None, source = ''leaflet'', note_text = None, post = None\<rparr>"

text \<open>A reason-function that flags row 2 whatever query set it is given.\<close>

definition flag_row_2 :: "(logged_action list, nat, 's) reason_fn" where
  "flag_row_2 self s = (Inr [2 \<mapsto> [''edited from a flagged address'']], s)"

text \<open>A reason-function that flags row 1 whatever query set it is given.\<close>

definition flag_row_1 :: "(logged_action list, nat, 's) reason_fn" where
  "flag_row_1 self s = (Inr [1 \<mapsto> [''source is empty'']], s)"

text \<open>A callable that empties the record store, and one that counts its calls in the state.\<close>

definition wipe_store :: "('q, nat, logged_action list) reason_fn" where
  "wipe_store self s = (Inr Map.empty, [])"

definition count_call :: "('q, nat, logged_action list \<times> nat) reason_fn" where
  "count_call self s = (Inr Map.empty, (fst s, Suc (snd s)))"

section \<open>Properties\<close>

subsection \<open>Lemmas on merging and on calling the reason-functions\<close>


lemma merge_lookup:
  "merge_dicts_with_list_values a b k =
     (case a k of
        None \<Rightarrow> b k
      | Some xs \<Rightarrow> (case b k of None \<Rightarrow> Some xs | Some ys \<Rightarrow> Some (xs @ ys)))"
  by (auto simp: merge_dicts_with_list_values_def dict_get_def split: option.splits)

lemma dom_merge: "dom (merge_dicts_with_list_values a b) = dom a \<union> dom b"
  by (auto simp: merge_lookup split: option.splits)

lemma merge_empty_right: "merge_dicts_with_list_values m Map.empty = m"
  by (rule ext) (simp add: merge_lookup split: option.splits)

lemma merge_empty_left: "merge_dicts_with_list_values Map.empty m = m"
  by (rule ext) (simp add: merge_lookup split: option.splits)

lemma merge_assoc:
  "merge_dicts_with_list_values a (merge_dicts_with_list_values b c) =
   merge_dicts_with_list_values (merge_dicts_with_list_values a b) c"
  by (rule ext) (simp add: merge_lookup split: option.splits)

lemma reduce_foldl: "reduce f xs acc = foldl f acc xs"
  by (induction xs arbitrary: acc) simp_all

lemma foldl_merge_shift:
  "foldl merge_dicts_with_list_values (merge_dicts_with_list_values a b) ds =
   merge_dicts_with_list_values a (foldl merge_dicts_with_list_values b ds)"
  by (induction ds arbitrary: b) (simp_all add: merge_assoc [symmetric])

lemma foldl_merge_foldr:
  "foldl merge_dicts_with_list_values Map.empty ds =
   foldr merge_dicts_with_list_values ds Map.empty"
proof (induction ds)
  case Nil
  show ?case by simp
next
  case (Cons d ds)
  have "foldl merge_dicts_with_list_values Map.empty (d # ds) =
        foldl merge_dicts_with_list_values (merge_dicts_with_list_values d Map.empty) ds"
    by (simp add: merge_empty_left merge_empty_right)
  also have "\<dots> = merge_dicts_with_list_values d (foldl merge_dicts_with_list_values Map.empty ds)"
    by (rule foldl_merge_shift)
  finally show ?case using Cons.IH by simp
qed

lemma foldl_merge_lookup:
  "foldl merge_dicts_with_list_values acc ds k =
     (if k \<in> dom acc \<or> (\<exists>d \<in> set ds. k \<in> dom d)
      then Some (dict_get acc k [] @ concat (map (\<lambda>d. dict_get d k []) ds))
      else None)"
proof (induction ds arbitrary: acc)
  case Nil
  show ?case by (auto simp: dict_get_def)
next
  case (Cons d ds)
  have step: "dict_get (merge_dicts_with_list_values acc d) k [] = dict_get acc k [] @ dict_get d k []"
    by (simp add: dict_get_def merge_lookup split: option.splits)
  show ?case
    by (simp add: Cons.IH step dom_merge)
qed

lemma concat_map_split2:
  assumes "i < j" and "j < length ds"
  shows "\<exists>pre mid post. concat (map g ds) = pre @ g (ds ! i) @ mid @ g (ds ! j) @ post"
proof -
  define rest where "rest = drop (Suc i) ds"
  from assms have i: "i < length ds" by simp
  have ds: "ds = take i ds @ ds ! i # rest"
    unfolding rest_def using i by (rule id_take_nth_drop)
  from assms have j': "j - Suc i < length rest" by (simp add: rest_def)
  have nth: "rest ! (j - Suc i) = ds ! j"
    using assms by (simp add: rest_def)
  have rest: "rest = take (j - Suc i) rest @ ds ! j # drop (Suc (j - Suc i)) rest"
    using id_take_nth_drop [OF j'] nth by simp
  have "concat (map g ds) = concat (map g (take i ds @ ds ! i # rest))"
    using ds by simp
  also have "\<dots> = concat (map g (take i ds)) @ g (ds ! i) @ concat (map g rest)"
    by simp
  also have "concat (map g rest) =
      concat (map g (take (j - Suc i) rest @ ds ! j # drop (Suc (j - Suc i)) rest))"
    using rest by simp
  also have "\<dots> = concat (map g (take (j - Suc i) rest)) @ g (ds ! j) @
      concat (map g (drop (Suc (j - Suc i)) rest))"
    by simp
  finally show ?thesis by blast
qed

lemma aggregate_spec_call_fns:
  "aggregate_spec acc fns self s =
     (case call_fns fns self s of
        (Inl e, s') \<Rightarrow> (Inl e, s')
      | (Inr ds, s') \<Rightarrow> (Inr (foldl merge_dicts_with_list_values acc ds), s'))"
  by (induction fns arbitrary: acc s) (simp_all split: prod.splits sum.splits)

lemma call_fns_results:
  "call_fns fns self s = (Inr ds, s') \<Longrightarrow>
   length ds = length fns \<and> (\<forall>i<length fns. \<exists>si si'. (fns ! i) self si = (Inr (ds ! i), si'))"
proof (induction fns arbitrary: s ds)
  case Nil
  then show ?case by simp
next
  case (Cons f fs)
  from Cons.prems obtain d s1 ds' where f: "f self s = (Inr d, s1)"
    and rest: "call_fns fs self s1 = (Inr ds', s')" and ds: "ds = d # ds'"
    by (auto split: prod.splits sum.splits)
  from Cons.IH [OF rest] have len: "length ds' = length fs"
    and each: "\<forall>i<length fs. \<exists>si si'. (fs ! i) self si = (Inr (ds' ! i), si')" by simp_all
  have "\<exists>si si'. ((f # fs) ! i) self si = (Inr (ds ! i), si')" if "i < length (f # fs)" for i
  proof (cases i)
    case 0
    with f ds show ?thesis by auto
  next
    case (Suc n)
    with that each ds show ?thesis by simp
  qed
  with len ds show ?case by simp
qed

lemma call_fns_append:
  "call_fns (xs @ ys) self s =
     (case call_fns xs self s of
        (Inl e, s') \<Rightarrow> (Inl e, s')
      | (Inr ds, s') \<Rightarrow>
          (case call_fns ys self s' of
             (Inl e, s'') \<Rightarrow> (Inl e, s'')
           | (Inr ds', s'') \<Rightarrow> (Inr (ds @ ds'), s'')))"
  by (induction xs arbitrary: s) (simp_all split: prod.splits sum.splits)

lemma call_fns_frame:
  "\<forall>f \<in> set fns. snd (f self s) = s \<Longrightarrow> snd (call_fns fns self s) = s"
proof (induction fns)
  case Nil
  show ?case by simp
next
  case (Cons f fs)
  then have f: "snd (f self s) = s" and rest: "snd (call_fns fs self s) = s" by simp_all
  obtain r where r: "f self s = (r, s)" using f by (cases "f self s") simp
  obtain r' where r': "call_fns fs self s = (r', s)" using rest by (cases "call_fns fs self s") simp
  show ?case by (simp add: r r' split: sum.splits)
qed

lemma call_fns_first_error:
  "call_fns fns self s = (Inl e, s2) \<Longrightarrow>
   \<exists>before f after ds s1. fns = before @ f # after \<and>
      call_fns before self s = (Inr ds, s1) \<and> f self s1 = (Inl e, s2)"
proof (induction fns arbitrary: s)
  case Nil
  then show ?case by simp
next
  case (Cons g gs)
  show ?case
  proof (cases "g self s")
    case (Pair r t)
    show ?thesis
    proof (cases r)
      case (Inl e')
      with Pair Cons.prems have "g self s = (Inl e, s2)" by simp
      moreover have "call_fns [] self s = (Inr [], s)" by simp
      ultimately show ?thesis by (metis append_Nil)
    next
      case (Inr d)
      with Pair Cons.prems have rest: "call_fns gs self t = (Inl e, s2)"
        by (simp split: prod.splits sum.splits)
      from Cons.IH [OF rest] obtain before f after ds s1 where
        gs: "gs = before @ f # after" and pre: "call_fns before self t = (Inr ds, s1)"
        and f: "f self s1 = (Inl e, s2)" by blast
      have "call_fns (g # before) self s = (Inr (d # ds), s1)"
        by (simp add: Pair Inr pre)
      moreover have "g # gs = (g # before) @ f # after" by (simp add: gs)
      ultimately show ?thesis using f by blast
    qed
  qed
qed

lemma call_fns_view:
  "\<forall>f \<in> set fns. \<forall>t. view (snd (f self t)) = view t \<Longrightarrow>
   view (snd (call_fns fns self s)) = view s"
proof (induction fns arbitrary: s)
  case Nil
  show ?case by simp
next
  case (Cons f fs)
  then have f: "\<And>t. view (snd (f self t)) = view t"
    and rest: "\<And>t. view (snd (call_fns fs self t)) = view t" by simp_all
  obtain r t where ft: "f self s = (r, t)" by (cases "f self s")
  with f [of s] have t: "view t = view s" by simp
  show ?case
  proof (cases r)
    case (Inl e)
    with ft t show ?thesis by simp
  next
    case (Inr d)
    obtain r' t' where ct: "call_fns fs self t = (r', t')" by (cases "call_fns fs self t")
    with rest [of t] t have "view t' = view s" by simp
    with ft Inr ct show ?thesis by (simp split: sum.splits)
  qed
qed

lemma needs_review_state: "snd (needs_review fns self s) = snd (call_fns fns self s)"
  by (cases "call_fns fns self s") (auto simp: needs_review_def split: sum.splits)

subsection \<open>Claims on \<open>merge_dicts_with_list_values\<close>\<close>

text \<open>
  Claim C1. For every pair of dictionaries \<open>dict_a\<close>, \<open>dict_b\<close> from record identities
  to lists of reasons, the keys of \<open>merge_dicts_with_list_values dict_a dict_b\<close> are
  exactly the keys of \<open>dict_a\<close> or \<open>dict_b\<close>; the value at such a key is the list of
  \<open>dict_a\<close> there (empty when the key is absent) followed by the list of \<open>dict_b\<close>
  there (empty when the key is absent); a key absent from both is absent from the
  result.
\<close>

theorem merge_dicts_with_list_values_keys_and_values:
  "dom (merge_dicts_with_list_values dict_a dict_b) = dom dict_a \<union> dom dict_b \<and>
   (\<forall>k \<in> dom dict_a \<union> dom dict_b.
      merge_dicts_with_list_values dict_a dict_b k =
        Some ((case dict_a k of None \<Rightarrow> [] | Some xs \<Rightarrow> xs) @
              (case dict_b k of None \<Rightarrow> [] | Some ys \<Rightarrow> ys))) \<and>
   (\<forall>k. k \<notin> dom dict_a \<and> k \<notin> dom dict_b \<longrightarrow>
      merge_dicts_with_list_values dict_a dict_b k = None)"
proof (intro conjI ballI allI impI)
  show "dom (merge_dicts_with_list_values dict_a dict_b) = dom dict_a \<union> dom dict_b"
    by (rule dom_merge)
next
  fix k assume "k \<in> dom dict_a \<union> dom dict_b"
  then show "merge_dicts_with_list_values dict_a dict_b k =
        Some ((case dict_a k of None \<Rightarrow> [] | Some xs \<Rightarrow> xs) @
              (case dict_b k of None \<Rightarrow> [] | Some ys \<Rightarrow> ys))"
    by (auto simp: merge_lookup split: option.splits)
next
  fix k assume "k \<notin> dom dict_a \<and> k \<notin> dom dict_b"
  then show "merge_dicts_with_list_values dict_a dict_b k = None"
    by (auto simp: merge_lookup domIff split: option.splits)
qed


theorem merge_dicts_with_list_values_keys_and_values_witness:
  "(1::nat) \<in> dom [1 \<mapsto> [''missing source'']] \<union> dom [1 \<mapsto> [''no note''], 2 \<mapsto> [''flagged IP'']] \<and>
   merge_dicts_with_list_values [(1::nat) \<mapsto> [''missing source'']]
     [1 \<mapsto> [''no note''], 2 \<mapsto> [''flagged IP'']] 1 = Some [''missing source'', ''no note''] \<and>
   (3::nat) \<notin> dom [(1::nat) \<mapsto> [''missing source'']] \<and>
   (3::nat) \<notin> dom [(1::nat) \<mapsto> [''no note''], 2 \<mapsto> [''flagged IP'']] \<and>
   merge_dicts_with_list_values [(1::nat) \<mapsto> [''missing source'']]
     [1 \<mapsto> [''no note''], 2 \<mapsto> [''flagged IP'']] 3 = None"
  using merge_dicts_with_list_values_keys_and_values
    [of "[(1::nat) \<mapsto> [''missing source'']]" "[(1::nat) \<mapsto> [''no note''], 2 \<mapsto> [''flagged IP'']]"]
  by simp

text \<open>
  Claim C4. Merging a dictionary with the empty dictionary, on either side, yields the
  dictionary itself.
\<close>

theorem merge_dicts_with_list_values_empty:
  "merge_dicts_with_list_values m Map.empty = m \<and>
   merge_dicts_with_list_values Map.empty m = m"
  by (simp add: merge_empty_left merge_empty_right)

text \<open>
  Claim C10. \<open>merge_dicts_with_list_values\<close> is associative, so the fold of
  \<open>needs_review\<close> does not depend on how adjacent merges are grouped: folding from the
  left as \<^verbatim>\<open>reduce\<close> does equals folding from the right, and the fold of a list
  cut in two is the merge of the folds of the two parts.
\<close>

theorem merge_dicts_with_list_values_associative:
  "merge_dicts_with_list_values a (merge_dicts_with_list_values b c) =
     merge_dicts_with_list_values (merge_dicts_with_list_values a b) c \<and>
   reduce merge_dicts_with_list_values ds Map.empty =
     foldr merge_dicts_with_list_values ds Map.empty \<and>
   reduce merge_dicts_with_list_values (xs @ ys) Map.empty =
     merge_dicts_with_list_values (reduce merge_dicts_with_list_values xs Map.empty)
       (reduce merge_dicts_with_list_values ys Map.empty)"
proof (intro conjI)
  show "merge_dicts_with_list_values a (merge_dicts_with_list_values b c) =
     merge_dicts_with_list_values (merge_dicts_with_list_values a b) c"
    by (rule merge_assoc)
next
  show "reduce merge_dicts_with_list_values ds Map.empty =
     foldr merge_dicts_with_list_values ds Map.empty"
    by (simp add: reduce_foldl foldl_merge_foldr)
next
  have "foldl merge_dicts_with_list_values Map.empty (xs @ ys) =
        foldl merge_dicts_with_list_values
          (merge_dicts_with_list_values (foldl merge_dicts_with_list_values Map.empty xs) Map.empty) ys"
    by (simp add: merge_empty_right)
  also have "\<dots> = merge_dicts_with_list_values (foldl merge_dicts_with_list_values Map.empty xs)
          (foldl merge_dicts_with_list_values Map.empty ys)"
    by (rule foldl_merge_shift)
  finally show "reduce merge_dicts_with_list_values (xs @ ys) Map.empty =
     merge_dicts_with_list_values (reduce merge_dicts_with_list_values xs Map.empty)
       (reduce merge_dicts_with_list_values ys Map.empty)"
    by (simp add: reduce_foldl)
qed

subsection \<open>Claims on \<open>needs_review\<close>\<close>

text \<open>
  Claim C2. For every list of reason-functions and every input collection,
  \<open>needs_review\<close> folds the result mappings of the functions in list order, starting
  from the empty mapping: it computes what the specification's loop \<open>aggregate_spec\<close>
  computes, and when every function returns, the value at a flagged key is the
  concatenation, in list order, of the lists the functions gave for that key, so the
  reasons of an earlier function come before those of a later one.
\<close>

theorem needs_review_folds_in_list_order:
  "needs_review fns self s = aggregate_spec Map.empty fns self s \<and>
   (\<forall>ds s'. call_fns fns self s = (Inr ds, s') \<longrightarrow>
      (\<exists>m. needs_review fns self s = (Inr m, s') \<and>
           length ds = length fns \<and>
           (\<forall>i<length fns. \<exists>si si'. (fns ! i) self si = (Inr (ds ! i), si')) \<and>
           (\<forall>k. m k =
              (if \<exists>d \<in> set ds. k \<in> dom d
               then Some (concat (map (\<lambda>d. case d k of None \<Rightarrow> [] | Some xs \<Rightarrow> xs) ds))
               else None)) \<and>
           (\<forall>k i j xs ys. i < j \<and> j < length ds \<and> (ds ! i) k = Some xs \<and> (ds ! j) k = Some ys \<longrightarrow>
              (\<exists>pre mid post. m k = Some (pre @ xs @ mid @ ys @ post)))))"
proof (intro conjI allI impI)
  show "needs_review fns self s = aggregate_spec Map.empty fns self s"
    by (simp add: needs_review_def aggregate_spec_call_fns reduce_foldl split: prod.splits sum.splits)
next
  fix ds s'
  assume run: "call_fns fns self s = (Inr ds, s')"
  define m where "m = foldl merge_dicts_with_list_values Map.empty ds"
  let ?g = "\<lambda>k d. case d k of None \<Rightarrow> [] | Some xs \<Rightarrow> (xs :: string list)"
  have get: "(\<lambda>d. dict_get d k []) = ?g k" for k :: 'c
    by (rule ext) (simp add: dict_get_def)
  have res: "needs_review fns self s = (Inr m, s')"
    by (simp add: needs_review_def run reduce_foldl m_def)
  have look: "m k = (if \<exists>d \<in> set ds. k \<in> dom d then Some (concat (map (?g k) ds)) else None)" for k
    unfolding m_def foldl_merge_lookup get by (simp add: dict_get_def)
  have order: "\<exists>pre mid post. m k = Some (pre @ xs @ mid @ ys @ post)"
    if "i < j \<and> j < length ds \<and> (ds ! i) k = Some xs \<and> (ds ! j) k = Some ys" for k i j xs ys
  proof -
    from that have ij: "i < j" "j < length ds" and xs: "(ds ! i) k = Some xs" and ys: "(ds ! j) k = Some ys"
      by simp_all
    from ij xs have "\<exists>d \<in> set ds. k \<in> dom d"
      by (metis domI nth_mem order.strict_trans)
    then have "m k = Some (concat (map (?g k) ds))" by (simp add: look)
    moreover obtain pre mid post where
      "concat (map (?g k) ds) = pre @ ?g k (ds ! i) @ mid @ ?g k (ds ! j) @ post"
      using concat_map_split2 [OF ij, of "?g k"] by blast
    ultimately show ?thesis using xs ys by auto
  qed
  from call_fns_results [OF run] res look order
  show "\<exists>m. needs_review fns self s = (Inr m, s') \<and>
           length ds = length fns \<and>
           (\<forall>i<length fns. \<exists>si si'. (fns ! i) self si = (Inr (ds ! i), si')) \<and>
           (\<forall>k. m k =
              (if \<exists>d \<in> set ds. k \<in> dom d
               then Some (concat (map (\<lambda>d. case d k of None \<Rightarrow> [] | Some xs \<Rightarrow> xs) ds))
               else None)) \<and>
           (\<forall>k i j xs ys. i < j \<and> j < length ds \<and> (ds ! i) k = Some xs \<and> (ds ! j) k = Some ys \<longrightarrow>
              (\<exists>pre mid post. m k = Some (pre @ xs @ mid @ ys @ post)))"
    by blast
qed

theorem needs_review_folds_in_list_order_witness:
  "call_fns [reason_fn_A, reason_fn_B] ([] :: logged_action list) () =
     (Inr [[''rec1'' \<mapsto> [''missing source'']],
           [''rec1'' \<mapsto> [''no note''], ''rec2'' \<mapsto> [''flagged IP'']]], ()) \<and>
   (\<exists>m. needs_review [reason_fn_A, reason_fn_B] ([] :: logged_action list) () = (Inr m, ()) \<and>
        m ''rec1'' = Some [''missing source'', ''no note''] \<and>
        m ''rec2'' = Some [''flagged IP''] \<and>
        m ''rec3'' = None)"
proof -
  have run: "call_fns [reason_fn_A, reason_fn_B] ([] :: logged_action list) () =
     (Inr [[''rec1'' \<mapsto> [''missing source'']],
           [''rec1'' \<mapsto> [''no note''], ''rec2'' \<mapsto> [''flagged IP'']]], ())"
    by (simp add: reason_fn_A_def reason_fn_B_def)
  from needs_review_folds_in_list_order
    [of "[reason_fn_A, reason_fn_B]" "[] :: logged_action list" "()", THEN conjunct2, rule_format, OF run]
  obtain m where res: "needs_review [reason_fn_A, reason_fn_B] ([] :: logged_action list) () = (Inr m, ())"
    and look: "\<And>k. m k =
       (if \<exists>d \<in> set [[''rec1'' \<mapsto> [''missing source'']],
                       [''rec1'' \<mapsto> [''no note''], ''rec2'' \<mapsto> [''flagged IP'']]]. k \<in> dom d
        then Some (concat (map (\<lambda>d. case d k of None \<Rightarrow> [] | Some xs \<Rightarrow> xs)
               [[''rec1'' \<mapsto> [''missing source'']],
                [''rec1'' \<mapsto> [''no note''], ''rec2'' \<mapsto> [''flagged IP'']]]))
        else None)"
    by blast
  have "m ''rec1'' = Some [''missing source'', ''no note'']" by (simp add: look)
  moreover have "m ''rec2'' = Some [''flagged IP'']" by (simp add: look)
  moreover have "m ''rec3'' = None" by (simp add: look)
  ultimately show ?thesis using run res by blast
qed

text \<open>
  Claim C5. When reason-function A returns \<^verbatim>\<open>{"rec1": ["missing source"]}\<close> and
  reason-function B returns \<^verbatim>\<open>{"rec1": ["no note"], "rec2": ["flagged IP"]}\<close>,
  aggregating with the list [A, B] yields exactly
  \<^verbatim>\<open>{"rec1": ["missing source", "no note"], "rec2": ["flagged IP"]}\<close>.
\<close>

theorem needs_review_scenario:
  assumes "fa self s = (Inr [''rec1'' \<mapsto> [''missing source'']], s1)"
    and "fb self s1 = (Inr [''rec1'' \<mapsto> [''no note''], ''rec2'' \<mapsto> [''flagged IP'']], s2)"
  shows "needs_review [fa, fb] self s =
    (Inr [''rec1'' \<mapsto> [''missing source'', ''no note''], ''rec2'' \<mapsto> [''flagged IP'']], s2)"
proof -
  have "merge_dicts_with_list_values
          (merge_dicts_with_list_values Map.empty [''rec1'' \<mapsto> [''missing source'']])
          [''rec1'' \<mapsto> [''no note''], ''rec2'' \<mapsto> [''flagged IP'']] =
        [''rec1'' \<mapsto> [''missing source'', ''no note''], ''rec2'' \<mapsto> [''flagged IP'']]"
    by (rule ext) (simp add: merge_lookup)
  then show ?thesis by (simp add: needs_review_def assms)
qed

theorem needs_review_scenario_witness:
  "needs_review [reason_fn_A, reason_fn_B] ([] :: logged_action list) () =
    (Inr [''rec1'' \<mapsto> [''missing source'', ''no note''], ''rec2'' \<mapsto> [''flagged IP'']], ())"
  by (rule needs_review_scenario) (simp_all add: reason_fn_A_def reason_fn_B_def)

text \<open>
  Claim C3, as amended. When every reason-function returns, \<open>needs_review\<close> has one
  result mapping per reason-function, in list order, and a key is present in the mapping
  it returns if and only if at least one reason-function's result mapping contains it;
  the key set is a subset of the identities of the input collection provided every
  result mapping has only identities of the input collection as keys.
\<close>

theorem needs_review_keys:
  assumes "call_fns fns self s = (Inr ds, s')"
  shows "\<exists>m. needs_review fns self s = (Inr m, s') \<and>
           length ds = length fns \<and>
           (\<forall>i<length fns. \<exists>si si'. (fns ! i) self si = (Inr (ds ! i), si')) \<and>
           (\<forall>k. k \<in> dom m \<longleftrightarrow> (\<exists>i<length fns. k \<in> dom (ds ! i))) \<and>
           (\<forall>k. k \<in> dom m \<longleftrightarrow> (\<exists>d \<in> set ds. k \<in> dom d)) \<and>
           ((\<forall>d \<in> set ds. dom d \<subseteq> pk ` set self) \<longrightarrow> dom m \<subseteq> pk ` set self)"
proof -
  define m where "m = foldl merge_dicts_with_list_values Map.empty ds"
  have res: "needs_review fns self s = (Inr m, s')"
    by (simp add: needs_review_def assms reduce_foldl m_def)
  from call_fns_results [OF assms] have len: "length ds = length fns"
    and each: "\<forall>i<length fns. \<exists>si si'. (fns ! i) self si = (Inr (ds ! i), si')"
    by simp_all
  have keys: "k \<in> dom m \<longleftrightarrow> (\<exists>d \<in> set ds. k \<in> dom d)" for k
    unfolding m_def by (simp add: domIff foldl_merge_lookup)
  have keys_idx: "k \<in> dom m \<longleftrightarrow> (\<exists>i<length fns. k \<in> dom (ds ! i))" for k
    unfolding keys len [symmetric] by (metis in_set_conv_nth)
  have sub: "dom m \<subseteq> pk ` set self" if "\<forall>d \<in> set ds. dom d \<subseteq> pk ` set self"
    using that keys by blast
  from res len each keys keys_idx sub show ?thesis by blast
qed

theorem needs_review_keys_witness:
  "\<exists>m. needs_review [flag_row_1, flag_row_2] [example_action 1 0, example_action 2 0] () = (Inr m, ()) \<and>
       dom m \<subseteq> pk ` set [example_action 1 0, example_action 2 0] \<and>
       1 \<in> dom m \<and> 2 \<in> dom m \<and> 3 \<notin> dom m"
proof -
  let ?ds = "[[(1::nat) \<mapsto> [''source is empty'']], [2 \<mapsto> [''edited from a flagged address'']]]"
  have run: "call_fns [flag_row_1, flag_row_2] [example_action 1 0, example_action 2 0] () = (Inr ?ds, ())"
    by (simp add: flag_row_1_def flag_row_2_def)
  from needs_review_keys [OF run] obtain m where
    res: "needs_review [flag_row_1, flag_row_2] [example_action 1 0, example_action 2 0] () = (Inr m, ())"
    and keys: "\<And>k. k \<in> dom m \<longleftrightarrow> (\<exists>d \<in> set ?ds. k \<in> dom d)"
    and sub: "(\<forall>d \<in> set ?ds. dom d \<subseteq> pk ` set [example_action 1 0, example_action 2 0])
       \<longrightarrow> dom m \<subseteq> pk ` set [example_action 1 0, example_action 2 0]"
    by blast
  have "dom m \<subseteq> pk ` set [example_action 1 0, example_action 2 0]"
    using sub by (simp add: example_action_def)
  moreover have "1 \<in> dom m" by (simp add: keys)
  moreover have "2 \<in> dom m" by (simp add: keys)
  moreover have "3 \<notin> dom m" by (simp add: keys)
  ultimately show ?thesis using res by blast
qed

text \<open>
  Claim C3 as stated asks for the subset with no condition on the keys the
  reason-functions return. It fails: on a collection holding only row 1, the
  reason-function \<open>flag_row_2\<close> makes \<open>needs_review\<close> return a mapping with key 2.
\<close>

theorem needs_review_keys_counterexample:
  "needs_review [flag_row_2] [example_action 1 0] () =
     (Inr [2 \<mapsto> [''edited from a flagged address'']], ()) \<and>
   \<not> dom [(2::nat) \<mapsto> [''edited from a flagged address'']] \<subseteq> pk ` set [example_action 1 0]"
  by (simp add: needs_review_def flag_row_2_def merge_empty_left example_action_def)

text \<open>
  Claim C8. If a reason-function raises when it is invoked on the input collection
  (the functions before it in the list having returned), \<open>needs_review\<close> ends with
  that error and with no result mapping, and the functions after it are not called.
  Conversely an error of \<open>needs_review\<close> is always the error of such a function:
  nothing is caught and nothing is recovered.
\<close>

theorem needs_review_propagates_error:
  "(call_fns before self s = (Inr ds, s1) \<and> f self s1 = (Inl e, s2) \<longrightarrow>
      needs_review (before @ f # after) self s = (Inl e, s2) \<and>
      (\<forall>m s'. needs_review (before @ f # after) self s \<noteq> (Inr m, s'))) \<and>
   (needs_review fns self s = (Inl e, s2) \<longleftrightarrow>
      (\<exists>before f after ds s1. fns = before @ f # after \<and>
         call_fns before self s = (Inr ds, s1) \<and> f self s1 = (Inl e, s2)))"
proof (intro conjI impI iffI)
  assume "call_fns before self s = (Inr ds, s1) \<and> f self s1 = (Inl e, s2)"
  then show "needs_review (before @ f # after) self s = (Inl e, s2)"
    by (simp add: needs_review_def call_fns_append)
  then show "\<forall>m s'. needs_review (before @ f # after) self s \<noteq> (Inr m, s')"
    by simp
next
  assume "needs_review fns self s = (Inl e, s2)"
  then have "call_fns fns self s = (Inl e, s2)"
    by (simp add: needs_review_def split: prod.splits sum.splits)
  then show "\<exists>before f after ds s1. fns = before @ f # after \<and>
         call_fns before self s = (Inr ds, s1) \<and> f self s1 = (Inl e, s2)"
    by (rule call_fns_first_error)
next
  assume "\<exists>before f after ds s1. fns = before @ f # after \<and>
         call_fns before self s = (Inr ds, s1) \<and> f self s1 = (Inl e, s2)"
  then show "needs_review fns self s = (Inl e, s2)"
    by (auto simp: needs_review_def call_fns_append)
qed

theorem needs_review_propagates_error_witness:
  "needs_review ([reason_fn_A] @ reason_fn_broken # [reason_fn_B]) ([] :: logged_action list) () =
     (Inl (Exception ''lookup failed''), ())"
proof -
  have 1: "call_fns [reason_fn_A] ([] :: logged_action list) () = (Inr [[''rec1'' \<mapsto> [''missing source'']]], ())"
    by (simp add: reason_fn_A_def)
  have 2: "reason_fn_broken ([] :: logged_action list) () = (Inl (Exception ''lookup failed''), ())"
    by (simp add: reason_fn_broken_def)
  from needs_review_propagates_error
    [where f = reason_fn_broken and after = "[reason_fn_B]" and before = "[reason_fn_A]"
       and self = "[] :: logged_action list" and s = "()" and ?s1.0 = "()" and ?s2.0 = "()"
       and e = "Exception ''lookup failed''" and ds = "[[''rec1'' \<mapsto> [''missing source'']]]"]
    1 2
  show ?thesis by blast
qed

text \<open>
  Claim C9, as amended. The aggregation itself writes nothing: when every
  reason-function leaves the state \<open>s\<close> it is called on unchanged, the state after
  \<open>needs_review\<close> is \<open>s\<close>; and any part \<open>view\<close> of the state (the rows of the input
  collection, a stored record) that every reason-function leaves as it found it is the
  same after \<open>needs_review\<close> as before. The collection \<open>self\<close> is passed to every
  function as the same value, and the merge builds a new dictionary with new lists: no
  dictionary that a reason-function returned is updated in place.
\<close>

theorem needs_review_frame:
  "((\<forall>f \<in> set fns. snd (f self s) = s) \<longrightarrow> snd (needs_review fns self s) = s) \<and>
   ((\<forall>f \<in> set fns. \<forall>t. view (snd (f self t)) = view t) \<longrightarrow>
      view (snd (needs_review fns self s)) = view s)"
proof (intro conjI impI)
  assume "\<forall>f \<in> set fns. snd (f self s) = s"
  then have "snd (call_fns fns self s) = s" by (rule call_fns_frame)
  then show "snd (needs_review fns self s) = s" by (simp add: needs_review_state)
next
  assume "\<forall>f \<in> set fns. \<forall>t. view (snd (f self t)) = view t"
  then have "view (snd (call_fns fns self s)) = view s" by (rule call_fns_view)
  then show "view (snd (needs_review fns self s)) = view s" by (simp add: needs_review_state)
qed

theorem needs_review_frame_witness:
  "snd (needs_review [flag_row_1, flag_row_2] [example_action 1 0]
          [example_action 1 0, example_action 2 0]) =
     [example_action 1 0, example_action 2 0] \<and>
   fst (snd (needs_review [count_call, count_call] [example_action 1 0]
          ([example_action 1 0, example_action 2 0], 0))) =
     [example_action 1 0, example_action 2 0]"
proof -
  have "snd (needs_review [flag_row_1, flag_row_2] [example_action 1 0]
          [example_action 1 0, example_action 2 0]) =
     [example_action 1 0, example_action 2 0]"
    using needs_review_frame
      [of "[flag_row_1, flag_row_2]" "[example_action 1 0]" "[example_action 1 0, example_action 2 0]" id]
    by (simp add: flag_row_1_def flag_row_2_def)
  moreover have "fst (snd (needs_review [count_call, count_call] [example_action 1 0]
          ([example_action 1 0, example_action 2 0], 0))) =
     fst ([example_action 1 0, example_action 2 0], 0::nat)"
    using needs_review_frame
      [of "[count_call, count_call]" "[example_action 1 0]"
          "([example_action 1 0, example_action 2 0], 0)" fst]
    by (simp add: count_call_def)
  ultimately show ?thesis by simp
qed

text \<open>
  Claim C9 as stated is for every list of reason-functions. It fails for a callable
  that writes: with \<open>wipe_store\<close> in the list, the record store is empty after
  \<open>needs_review\<close>.
\<close>

theorem needs_review_frame_counterexample:
  "snd (needs_review [wipe_store] [example_action 1 0] [example_action 1 0]) = [] \<and>
   snd (needs_review [wipe_store] [example_action 1 0] [example_action 1 0]) \<noteq> [example_action 1 0]"
  by (simp add: needs_review_def wipe_store_def)

subsection \<open>Claims on the trailing window and on the post-save hook\<close>

text \<open>
  Claim C6. With its default of 5 days, \<open>in_recent_days\<close> keeps exactly the rows
  whose creation timestamp is at least the current time minus 5 days (432000000000
  microseconds), in their order; a row created 6 days ago is excluded and a row of the
  collection created 1 day ago is included.
\<close>

theorem in_recent_days_default_window:
  "in_recent_days self None now = filter (\<lambda>r. now - 5 * 86400000000 \<le> created r) self \<and>
   set (in_recent_days self None now) = {r \<in> set self. now - 5 * 86400000000 \<le> created r} \<and>
   (\<forall>r. created r = now - timedelta 6 \<longrightarrow> r \<notin> set (in_recent_days self None now)) \<and>
   (\<forall>r \<in> set self. created r = now - timedelta 1 \<longrightarrow> r \<in> set (in_recent_days self None now))"
  by (simp add: in_recent_days_def timedelta_def)

theorem in_recent_days_default_window_witness:
  "created (example_action 1 1781481600000000) = 1782000000000000 - timedelta 6 \<and>
   example_action 1 1781481600000000 \<notin>
     set (in_recent_days [example_action 1 1781481600000000, example_action 2 1781913600000000]
            None 1782000000000000) \<and>
   example_action 2 1781913600000000 \<in>
     set [example_action 1 1781481600000000, example_action 2 1781913600000000] \<and>
   created (example_action 2 1781913600000000) = 1782000000000000 - timedelta 1 \<and>
   example_action 2 1781913600000000 \<in>
     set (in_recent_days [example_action 1 1781481600000000, example_action 2 1781913600000000]
            None 1782000000000000)"
proof -
  have c1: "created (example_action 1 1781481600000000) = 1782000000000000 - timedelta 6"
    by (simp add: example_action_def timedelta_def)
  have c2: "created (example_action 2 1781913600000000) = 1782000000000000 - timedelta 1"
    by (simp add: example_action_def timedelta_def)
  have mem: "example_action 2 1781913600000000 \<in>
     set [example_action 1 1781481600000000, example_action 2 1781913600000000]"
    by simp
  note w = in_recent_days_default_window
    [of "[example_action 1 1781481600000000, example_action 2 1781913600000000]" 1782000000000000]
  from w c1 have out: "example_action 1 1781481600000000 \<notin>
     set (in_recent_days [example_action 1 1781481600000000, example_action 2 1781913600000000]
            None 1782000000000000)"
    by blast
  from w c2 mem have "example_action 2 1781913600000000 \<in>
     set (in_recent_days [example_action 1 1781481600000000, example_action 2 1781913600000000]
            None 1782000000000000)"
    by blast
  with c1 c2 mem out show ?thesis by blast
qed

text \<open>
  Claim C7, as amended. For an account that has no terms-agreement row yet, the
  post-save hook creates exactly one row, with \<open>assigned_to_dc\<close> false, when the save
  event is a creation; an update creates no row, whatever the table holds. For an
  account that already has a row, a creation event creates none: the one-to-one
  constraint refuses the insertion.
\<close>

theorem create_user_terms_agreement_on_creation_only:
  "create_user_terms_agreement sender instance False tbl = Inr tbl \<and>
   (instance \<notin> agreement_user ` set tbl \<longrightarrow>
      create_user_terms_agreement sender instance True tbl =
        Inr (tbl @ [\<lparr>agreement_user = instance, assigned_to_dc = False\<rparr>])) \<and>
   (instance \<in> agreement_user ` set tbl \<longrightarrow>
      create_user_terms_agreement sender instance True tbl = Inl IntegrityError)"
  by (simp add: create_user_terms_agreement_def objects_create_def)

theorem create_user_terms_agreement_on_creation_only_witness:
  "(8::nat) \<notin> agreement_user ` set [\<lparr>agreement_user = 3, assigned_to_dc = True\<rparr>] \<and>
   create_user_terms_agreement ''User'' 8 True [\<lparr>agreement_user = 3, assigned_to_dc = True\<rparr>] =
     Inr [\<lparr>agreement_user = 3, assigned_to_dc = True\<rparr>, \<lparr>agreement_user = 8, assigned_to_dc = False\<rparr>] \<and>
   create_user_terms_agreement ''User'' 8 False [\<lparr>agreement_user = 3, assigned_to_dc = True\<rparr>] =
     Inr [\<lparr>agreement_user = 3, assigned_to_dc = True\<rparr>] \<and>
   (3::nat) \<in> agreement_user ` set [\<lparr>agreement_user = 3, assigned_to_dc = True\<rparr>] \<and>
   create_user_terms_agreement ''User'' 3 True [\<lparr>agreement_user = 3, assigned_to_dc = True\<rparr>] =
     Inl IntegrityError"
  using create_user_terms_agreement_on_creation_only
      [of "''User''" 8 "[\<lparr>agreement_user = 3, assigned_to_dc = True\<rparr>]"]
    create_user_terms_agreement_on_creation_only
      [of "''User''" 3 "[\<lparr>agreement_user = 3, assigned_to_dc = True\<rparr>]"]
  by simp

text \<open>
  Claim C7 as stated is for every save event. It fails for a creation event on an
  account that already has a row: the hook raises and no row is created.
\<close>

theorem create_user_terms_agreement_counterexample:
  "(5::nat) \<in> agreement_user ` set [\<lparr>agreement_user = 5, assigned_to_dc = False\<rparr>] \<and>
   create_user_terms_agreement ''User'' 5 True [\<lparr>agreement_user = 5, assigned_to_dc = False\<rparr>] =
     Inl IntegrityError"
  by (simp add: create_user_terms_agreement_def objects_create_def)

end
